theory Spec2Isabelle
  imports Main "HOL-Library.AList"
begin

section \<open>The store: two SQLite tables\<close>

text \<open>
  The service keeps its data in an SQLite file with two tables. A table that has not been
  created yet is \<open>None\<close>; a created table is the list of its rows in scan order. Rows of
  \<open>activities\<close> carry the four columns of the schema; a row of \<open>participants\<close> is the
  pair \<open>(activity_name, email)\<close>. Text columns are compared byte for byte (SQLite's
  default BINARY collation), which is equality on \<open>string\<close>. Python integers and SQLite
  INTEGER values are modelled as \<open>int\<close>.
\<close>

record activity_info =
  description :: string
  schedule :: string
  max_participants :: int

record activity_row = activity_info +
  name :: string

type_synonym participant_row = "string \<times> string"

record db =
  activities_table :: "activity_row list option"
  participants_table :: "participant_row list option"

text \<open>The values of the dictionaries \<open>INITIAL_ACTIVITIES\<close> and of the listing.\<close>

record activity_details = activity_info +
  participants :: "string list"

text \<open>
  Exceptions are values. \<open>HTTPException status_code detail\<close> is the one the handlers raise
  themselves; the other three are raised by the storage engine or by a dictionary lookup
  and reach the client as a server error.
\<close>

datatype error =
    HTTPException int string
  | OperationalError string
  | IntegrityError string
  | KeyError string

subsection \<open>Connections and transactions\<close>

text \<open>
  A connection sees its own uncommitted changes (\<open>working\<close>); the file holds what was
  committed (\<open>stored\<close>). \<open>commit\<close> writes the working copy to the file; \<open>close\<close> drops
  whatever was not committed. \<open>get_db\<close> is the context manager: it opens a connection on
  the file, runs the body and closes the connection whether the body returned or raised.
\<close>

record conn =
  stored :: db
  working :: db

definition connect :: "db \<Rightarrow> conn" where
  "connect d = \<lparr>stored = d, working = d\<rparr>"

definition commit :: "conn \<Rightarrow> conn" where
  "commit c = c\<lparr>stored := working c\<rparr>"

definition close :: "conn \<Rightarrow> db" where
  "close c = stored c"

definition get_db :: "db \<Rightarrow> (conn \<Rightarrow> 'a \<times> conn) \<Rightarrow> 'a \<times> db" where
  "get_db d body = (case body (connect d) of (r, c) \<Rightarrow> (r, close c))"

subsection \<open>The SQL statements the program executes\<close>

text \<open>
  \<open>CREATE TABLE IF NOT EXISTS\<close> is a schema statement: the \<open>sqlite3\<close> module runs it
  outside any transaction, so it reaches the file at once.
\<close>

definition create_activities :: "conn \<Rightarrow> conn" where
  "create_activities c =
     (case activities_table (working c) of
        Some _ \<Rightarrow> c
      | None \<Rightarrow> c\<lparr>stored := (stored c)\<lparr>activities_table := Some []\<rparr>,
                  working := (working c)\<lparr>activities_table := Some []\<rparr>\<rparr>)"

definition create_participants :: "conn \<Rightarrow> conn" where
  "create_participants c =
     (case participants_table (working c) of
        Some _ \<Rightarrow> c
      | None \<Rightarrow> c\<lparr>stored := (stored c)\<lparr>participants_table := Some []\<rparr>,
                  working := (working c)\<lparr>participants_table := Some []\<rparr>\<rparr>)"

text \<open>\<open>FROM activities\<close> and \<open>FROM participants\<close>: the rows, or the engine's error.\<close>

definition activities_rows :: "conn \<Rightarrow> error + activity_row list" where
  "activities_rows c =
     (case activities_table (working c) of
        None \<Rightarrow> Inl (OperationalError ''no such table: activities'')
      | Some rows \<Rightarrow> Inr rows)"

definition participants_rows :: "conn \<Rightarrow> error + participant_row list" where
  "participants_rows c =
     (case participants_table (working c) of
        None \<Rightarrow> Inl (OperationalError ''no such table: participants'')
      | Some rows \<Rightarrow> Inr rows)"

text \<open>
  \<open>INSERT\<close> checks the primary key of the table and appends the row. The foreign key of
  \<open>participants\<close> is declared but SQLite does not enforce it unless the connection
  switches enforcement on, which the program never does; so it is not checked here.
\<close>

definition insert_activity :: "conn \<Rightarrow> activity_row \<Rightarrow> error + conn" where
  "insert_activity c row =
     (case activities_rows c of
        Inl err \<Rightarrow> Inl err
      | Inr rows \<Rightarrow>
          if name row \<in> set (map name rows)
          then Inl (IntegrityError ''UNIQUE constraint failed: activities.name'')
          else Inr (c\<lparr>working := (working c)\<lparr>activities_table := Some (rows @ [row])\<rparr>\<rparr>))"

definition insert_participant :: "conn \<Rightarrow> participant_row \<Rightarrow> error + conn" where
  "insert_participant c row =
     (case participants_rows c of
        Inl err \<Rightarrow> Inl err
      | Inr rows \<Rightarrow>
          if row \<in> set rows
          then Inl (IntegrityError
                 ''UNIQUE constraint failed: participants.activity_name, participants.email'')
          else Inr (c\<lparr>working := (working c)\<lparr>participants_table := Some (rows @ [row])\<rparr>\<rparr>))"

text \<open>\<open>DELETE FROM participants WHERE activity_name = ? AND email = ?\<close>, with its rowcount.\<close>

definition delete_participant :: "conn \<Rightarrow> string \<Rightarrow> string \<Rightarrow> error + (nat \<times> conn)" where
  "delete_participant c a e =
     (case participants_rows c of
        Inl err \<Rightarrow> Inl err
      | Inr rows \<Rightarrow>
          Inr (length (filter (\<lambda>p. fst p = a \<and> snd p = e) rows),
               c\<lparr>working := (working c)\<lparr>participants_table :=
                    Some (filter (\<lambda>p. \<not> (fst p = a \<and> snd p = e)) rows)\<rparr>\<rparr>))"

section \<open>The program\<close>

definition INITIAL_ACTIVITIES :: "(string \<times> activity_details) list" where
  "INITIAL_ACTIVITIES =
   [(''Chess Club'',
     \<lparr>description = ''Learn strategies and compete in chess tournaments'',
      schedule = ''Fridays, 3:30 PM - 5:00 PM'',
      max_participants = 12,
      participants = [''michael@mergington.edu'', ''daniel@mergington.edu'']\<rparr>),
    (''Programming Class'',
     \<lparr>description = ''Learn programming fundamentals and build software projects'',
      schedule = ''Tuesdays and Thursdays, 3:30 PM - 4:30 PM'',
      max_participants = 20,
      participants = [''emma@mergington.edu'', ''sophia@mergington.edu'']\<rparr>),
    (''Gym Class'',
     \<lparr>description = ''Physical education and sports activities'',
      schedule = ''Mondays, Wednesdays, Fridays, 2:00 PM - 3:00 PM'',
      max_participants = 30,
      participants = [''john@mergington.edu'', ''olivia@mergington.edu'']\<rparr>),
    (''Soccer Team'',
     \<lparr>description = ''Join the school soccer team and compete in local leagues'',
      schedule = ''Tuesdays and Thursdays, 4:00 PM - 5:30 PM'',
      max_participants = 18,
      participants = [''lucas@mergington.edu'', ''mia@mergington.edu'']\<rparr>),
    (''Basketball Club'',
     \<lparr>description = ''Practice basketball skills and play friendly matches'',
      schedule = ''Wednesdays, 3:30 PM - 5:00 PM'',
      max_participants = 15,
      participants = [''liam@mergington.edu'', ''ava@mergington.edu'']\<rparr>),
    (''Drama Club'',
     \<lparr>description = ''Participate in school plays and improve acting skills'',
      schedule = ''Mondays, 4:00 PM - 5:30 PM'',
      max_participants = 20,
      participants = [''noah@mergington.edu'', ''isabella@mergington.edu'']\<rparr>),
    (''Art Workshop'',
     \<lparr>description = ''Explore painting, drawing, and other visual arts'',
      schedule = ''Fridays, 2:00 PM - 3:30 PM'',
      max_participants = 16,
      participants = [''amelia@mergington.edu'', ''benjamin@mergington.edu'']\<rparr>),
    (''Math Olympiad'',
     \<lparr>description = ''Prepare for math competitions and solve challenging problems'',
      schedule = ''Thursdays, 3:30 PM - 5:00 PM'',
      max_participants = 10,
      participants = [''charlotte@mergington.edu'', ''jack@mergington.edu'']\<rparr>),
    (''Debate Team'',
     \<lparr>description = ''Develop public speaking and argumentation skills'',
      schedule = ''Wednesdays, 4:00 PM - 5:30 PM'',
      max_participants = 12,
      participants = [''harper@mergington.edu'', ''elijah@mergington.edu'']\<rparr>)]"

subsection \<open>\<open>init_db\<close>\<close>

text \<open>
  The two loops of \<open>init_db\<close>. Each returns the exception that stopped it, if any, and the
  connection as it is at that moment.
\<close>

fun add_participants :: "conn \<Rightarrow> string \<Rightarrow> string list \<Rightarrow> error option \<times> conn" where
  "add_participants c n [] = (None, c)"
| "add_participants c n (email # emails) =
     (case insert_participant c (n, email) of
        Inl err \<Rightarrow> (Some err, c)
      | Inr c' \<Rightarrow> add_participants c' n emails)"

fun populate :: "conn \<Rightarrow> (string \<times> activity_details) list \<Rightarrow> error option \<times> conn" where
  "populate c [] = (None, c)"
| "populate c ((n, details) # rest) =
     (case insert_activity c
             \<lparr>description = description details, schedule = schedule details,
              max_participants = max_participants details, name = n\<rparr> of
        Inl err \<Rightarrow> (Some err, c)
      | Inr c1 \<Rightarrow>
          (case add_participants c1 n (participants details) of
             (Some err, c2) \<Rightarrow> (Some err, c2)
           | (None, c2) \<Rightarrow> populate c2 rest))"

definition init_db :: "db \<Rightarrow> error option \<times> db" where
  "init_db d = get_db d (\<lambda>conn0.
     let conn = create_participants (create_activities conn0) in
     case activities_rows conn of
       Inl err \<Rightarrow> (Some err, conn)
     | Inr rows \<Rightarrow>
         if length rows = 0
         then (case populate conn INITIAL_ACTIVITIES of
                 (Some err, conn') \<Rightarrow> (Some err, conn')
               | (None, conn') \<Rightarrow> (None, commit conn'))
         else (None, conn))"

subsection \<open>\<open>GET /\<close>\<close>

text \<open>
  \<open>root\<close> builds a \<open>RedirectResponse\<close> from the target URL alone. The class belongs to the
  web framework, not to this program; the status it uses when the caller passes none is
  therefore a parameter of the model. \<open>framework_redirect_status\<close> is the value that
  parameter has in the framework the program imports (Starlette's
  \<open>RedirectResponse(url, status_code=307, ...)\<close>).
\<close>

record redirect_response =
  status_code :: int
  location :: string

definition RedirectResponse :: "int \<Rightarrow> string \<Rightarrow> int option \<Rightarrow> redirect_response" where
  "RedirectResponse default_status url given =
     \<lparr>status_code = (case given of None \<Rightarrow> default_status | Some s \<Rightarrow> s),
      location = url\<rparr>"

definition root :: "int \<Rightarrow> redirect_response" where
  "root default_status = RedirectResponse default_status ''/static/index.html'' None"

definition framework_redirect_status :: int where
  "framework_redirect_status = 307"

subsection \<open>\<open>GET /activities\<close>\<close>

text \<open>
  The result dictionary is an association list in insertion order; \<open>AList.update\<close> is
  Python's \<open>d[k] = v\<close> (replace in place, or append a new key). The second loop looks the
  activity of each participant row up and raises \<open>KeyError\<close> when it is missing.
\<close>

definition add_activity ::
  "activity_row \<Rightarrow> (string \<times> activity_details) list \<Rightarrow> (string \<times> activity_details) list" where
  "add_activity row activities =
     AList.update (name row)
       \<lparr>description = description row, schedule = schedule row,
        max_participants = max_participants row, participants = []\<rparr> activities"

fun append_emails ::
  "(string \<times> activity_details) list \<Rightarrow> participant_row list \<Rightarrow>
   error + (string \<times> activity_details) list" where
  "append_emails activities [] = Inr activities"
| "append_emails activities ((a, email) # rows) =
     (case map_of activities a of
        None \<Rightarrow> Inl (KeyError a)
      | Some details \<Rightarrow>
          append_emails
            (AList.update a (details\<lparr>participants := participants details @ [email]\<rparr>) activities)
            rows)"

definition get_activities :: "db \<Rightarrow> (error + (string \<times> activity_details) list) \<times> db" where
  "get_activities d = get_db d (\<lambda>conn.
     case activities_rows conn of
       Inl err \<Rightarrow> (Inl err, conn)
     | Inr rows \<Rightarrow>
         let activities = fold add_activity rows [] in
         (case participants_rows conn of
            Inl err \<Rightarrow> (Inl err, conn)
          | Inr prows \<Rightarrow> (append_emails activities prows, conn)))"

subsection \<open>\<open>POST /activities/{activity_name}/signup\<close>\<close>

definition signup_for_activity :: "db \<Rightarrow> string \<Rightarrow> string \<Rightarrow> (error + string) \<times> db" where
  "signup_for_activity d activity_name email = get_db d (\<lambda>conn.
     case activities_rows conn of
       Inl err \<Rightarrow> (Inl err, conn)
     | Inr rows \<Rightarrow>
         (case find (\<lambda>row. name row = activity_name) rows of
            None \<Rightarrow> (Inl (HTTPException 404 ''Activity not found''), conn)
          | Some activity \<Rightarrow>
              (case participants_rows conn of
                 Inl err \<Rightarrow> (Inl err, conn)
               | Inr prows \<Rightarrow>
                   let current_participants =
                         int (length (filter (\<lambda>p. fst p = activity_name) prows)) in
                   if current_participants \<ge> max_participants activity
                   then (Inl (HTTPException 400 ''Activity is full''), conn)
                   else if find (\<lambda>p. fst p = activity_name \<and> snd p = email) prows \<noteq> None
                   then (Inl (HTTPException 400 ''Already registered for this activity''), conn)
                   else (case insert_participant conn (activity_name, email) of
                           Inl err \<Rightarrow> (Inl err, conn)
                         | Inr conn' \<Rightarrow>
                             (Inr (''Successfully signed up for '' @ activity_name),
                              commit conn')))))"

subsection \<open>\<open>DELETE /activities/{activity_name}/unregister\<close>\<close>

definition unregister_from_activity :: "db \<Rightarrow> string \<Rightarrow> string \<Rightarrow> (error + string) \<times> db" where
  "unregister_from_activity d activity_name email = get_db d (\<lambda>conn.
     case activities_rows conn of
       Inl err \<Rightarrow> (Inl err, conn)
     | Inr rows \<Rightarrow>
         if find (\<lambda>row. name row = activity_name) rows = None
         then (Inl (HTTPException 404 ''Activity not found''), conn)
         else (case delete_participant conn activity_name email of
                 Inl err \<Rightarrow> (Inl err, conn)
               | Inr (rowcount, conn') \<Rightarrow>
                   if rowcount = 0
                   then (Inl (HTTPException 404 ''Participant not found''), conn')
                   else (Inr (''Successfully unregistered from '' @ activity_name),
                         commit conn')))"

section \<open>States of the service\<close>

text \<open>
  A new database file has no tables. The program runs \<open>init_db\<close> when the module is
  loaded, before any request is served; the state it leaves on a new file is the seeded
  state, and the requests that write are signup and unregister.
\<close>

definition new_file :: db where
  "new_file = \<lparr>activities_table = None, participants_table = None\<rparr>"

definition seeded :: db where
  "seeded = snd (init_db new_file)"

inductive reachable :: "db \<Rightarrow> bool" where
  start: "reachable seeded"
| signup: "reachable d \<Longrightarrow> reachable (snd (signup_for_activity d a e))"
| unregister: "reachable d \<Longrightarrow> reachable (snd (unregister_from_activity d a e))"

text \<open>
  The tables of the seeded state, read off \<open>INITIAL_ACTIVITIES\<close>: one row per activity,
  one membership per listed participant.
\<close>

definition seed_rows :: "activity_row list" where
  "seed_rows =
     map (\<lambda>(n, details).
            \<lparr>description = description details, schedule = schedule details,
             max_participants = max_participants details, name = n\<rparr>)
       INITIAL_ACTIVITIES"

definition seed_memberships :: "participant_row list" where
  "seed_memberships =
     concat (map (\<lambda>(n, details). map (Pair n) (participants details)) INITIAL_ACTIVITIES)"

text \<open>
  A state reached from the seeded one by seven signups for the Math Olympiad, which then
  has nine of its ten places taken.
\<close>

definition olympiad_one_place_left :: db where
  "olympiad_one_place_left =
     fold (\<lambda>email d. snd (signup_for_activity d ''Math Olympiad'' email))
       [''s1@mergington.edu'', ''s2@mergington.edu'', ''s3@mergington.edu'',
        ''s4@mergington.edu'', ''s5@mergington.edu'', ''s6@mergington.edu'',
        ''s7@mergington.edu''] seeded"

text \<open>
  Two notions for the analysis of \<open>init_db\<close>: the store once both tables have been
  created, and a connection that sees at least one activity.
\<close>

definition with_tables :: "db \<Rightarrow> db" where
  "with_tables d =
     \<lparr>activities_table = Some (case activities_table d of None \<Rightarrow> [] | Some rows \<Rightarrow> rows),
      participants_table = Some (case participants_table d of None \<Rightarrow> [] | Some rows \<Rightarrow> rows)\<rparr>"

definition populated :: "conn \<Rightarrow> bool" where
  "populated c = (case activities_table (working c) of None \<Rightarrow> False | Some rows \<Rightarrow> rows \<noteq> [])"

section \<open>What the handlers compute\<close>

text \<open>
  On a store whose two tables exist, each handler is a function of the rows. The lemmas of
  this section unfold the connection handling once; the properties below rest on them.
\<close>

lemma find_pair_iff:
  "find (\<lambda>p. fst p = a \<and> snd p = e) ps = None \<longleftrightarrow> (a, e) \<notin> set ps"
  by (induction ps) auto

lemma find_name_iff:
  "find (\<lambda>row. name row = a) acts = None \<longleftrightarrow> a \<notin> name ` set acts"
  by (induction acts) auto

lemma filter_pair_empty:
  "(a, e) \<notin> set ps \<Longrightarrow> filter (\<lambda>p. fst p = a \<and> snd p = e) ps = []"
  by (induction ps) auto

lemma filter_pair_present:
  "(a, e) \<in> set ps \<Longrightarrow> filter (\<lambda>p. fst p = a \<and> snd p = e) ps \<noteq> []"
  by (induction ps) auto

lemma signup_unfold:
  assumes "activities_table d = Some acts" "participants_table d = Some ps"
  shows "signup_for_activity d a e =
    (case find (\<lambda>row. name row = a) acts of
       None \<Rightarrow> (Inl (HTTPException 404 ''Activity not found''), d)
     | Some r \<Rightarrow>
         if int (length (filter (\<lambda>p. fst p = a) ps)) \<ge> max_participants r
         then (Inl (HTTPException 400 ''Activity is full''), d)
         else if (a, e) \<in> set ps
         then (Inl (HTTPException 400 ''Already registered for this activity''), d)
         else (Inr (''Successfully signed up for '' @ a), d\<lparr>participants_table := Some (ps @ [(a, e)])\<rparr>))"
  using assms
  by (simp add: signup_for_activity_def get_db_def connect_def close_def commit_def
      activities_rows_def participants_rows_def insert_participant_def find_pair_iff Let_def
      split: option.splits)

lemma unregister_unfold:
  assumes "activities_table d = Some acts" "participants_table d = Some ps"
  shows "unregister_from_activity d a e =
    (if a \<notin> name ` set acts
     then (Inl (HTTPException 404 ''Activity not found''), d)
     else if (a, e) \<notin> set ps
     then (Inl (HTTPException 404 ''Participant not found''), d)
     else (Inr (''Successfully unregistered from '' @ a),
           d\<lparr>participants_table := Some (filter (\<lambda>p. p \<noteq> (a, e)) ps)\<rparr>))"
proof (cases "a \<in> name ` set acts")
  case False
  with assms show ?thesis
    by (simp add: unregister_from_activity_def get_db_def connect_def close_def
        activities_rows_def find_name_iff)
next
  case True
  show ?thesis
  proof (cases "(a, e) \<in> set ps")
    case False
    with True assms show ?thesis
      by (simp add: unregister_from_activity_def get_db_def connect_def close_def
          activities_rows_def participants_rows_def delete_participant_def find_name_iff
          filter_pair_empty)
  next
    case member: True
    with True assms show ?thesis
      by (simp add: unregister_from_activity_def get_db_def connect_def close_def commit_def
          activities_rows_def participants_rows_def delete_participant_def find_name_iff
          filter_pair_present prod_eq_iff)
  qed
qed


lemma find_name_Some:
  "distinct (map name acts) \<Longrightarrow> r \<in> set acts \<Longrightarrow> find (\<lambda>row. name row = name r) acts = Some r"
  by (induction acts) (auto simp: rev_image_eqI)

lemma signup_not_found:
  assumes "activities_table d = Some acts" and "participants_table d = Some ps"
    and "a \<notin> name ` set acts"
  shows "signup_for_activity d a e = (Inl (HTTPException 404 ''Activity not found''), d)"
  using signup_unfold [OF assms(1,2), of a e] assms(3) find_name_iff [of a acts] by simp

lemma signup_found:
  assumes "activities_table d = Some acts" and "participants_table d = Some ps"
    and "distinct (map name acts)" and "r \<in> set acts"
  shows "signup_for_activity d (name r) e =
        (if int (length (filter (\<lambda>p. fst p = name r) ps)) \<ge> max_participants r
         then (Inl (HTTPException 400 ''Activity is full''), d)
         else if (name r, e) \<in> set ps
         then (Inl (HTTPException 400 ''Already registered for this activity''), d)
         else (Inr (''Successfully signed up for '' @ name r),
               d\<lparr>participants_table := Some (ps @ [(name r, e)])\<rparr>))"
  using signup_unfold [OF assms(1,2), of "name r" e] find_name_Some [OF assms(3,4)] by simp

lemma signup_error_unchanged:
  "fst (signup_for_activity d a e) = Inl err \<Longrightarrow> snd (signup_for_activity d a e) = d"
  by (auto simp add: signup_for_activity_def get_db_def connect_def close_def commit_def
      activities_rows_def participants_rows_def insert_participant_def Let_def
      split: option.splits if_splits)

lemma unregister_error_unchanged:
  "fst (unregister_from_activity d a e) = Inl err \<Longrightarrow> snd (unregister_from_activity d a e) = d"
  by (auto simp add: unregister_from_activity_def get_db_def connect_def close_def commit_def
      activities_rows_def participants_rows_def delete_participant_def Let_def
      split: option.splits if_splits)


lemma init_db_new_file:
  "init_db new_file =
     (None, \<lparr>activities_table = Some seed_rows, participants_table = Some seed_memberships\<rparr>)"
  by (simp add: init_db_def get_db_def connect_def close_def commit_def new_file_def
      create_activities_def create_participants_def activities_rows_def participants_rows_def
      insert_activity_def insert_participant_def INITIAL_ACTIVITIES_def seed_rows_def
      seed_memberships_def)

lemma seeded_eq:
  "seeded = \<lparr>activities_table = Some seed_rows, participants_table = Some seed_memberships\<rparr>"
  by (simp add: seeded_def init_db_new_file)

lemma same_name_same_row:
  "distinct (map name acts) \<Longrightarrow> r \<in> set acts \<Longrightarrow> r' \<in> set acts \<Longrightarrow> name r' = name r \<Longrightarrow> r' = r"
  by (meson distinct_map inj_onD)

lemma seed_invariant:
  "distinct (map name seed_rows) \<and> distinct seed_memberships \<and>
   (\<forall>r\<in>set seed_rows. int (length (filter (\<lambda>p. fst p = name r) seed_memberships)) \<le> max_participants r) \<and>
   (\<forall>p\<in>set seed_memberships. fst p \<in> name ` set seed_rows)"
  by (simp add: seed_rows_def seed_memberships_def INITIAL_ACTIVITIES_def)

lemma signup_invariant:
  assumes t: "activities_table d = Some acts" "participants_table d = Some ps"
    and inv: "distinct (map name acts)" "distinct ps"
      "\<forall>r\<in>set acts. int (length (filter (\<lambda>p. fst p = name r) ps)) \<le> max_participants r"
      "\<forall>p\<in>set ps. fst p \<in> name ` set acts"
  shows "\<exists>ps'. activities_table (snd (signup_for_activity d a e)) = Some acts \<and>
      participants_table (snd (signup_for_activity d a e)) = Some ps' \<and> distinct ps' \<and>
      (\<forall>r\<in>set acts. int (length (filter (\<lambda>p. fst p = name r) ps')) \<le> max_participants r) \<and>
      (\<forall>p\<in>set ps'. fst p \<in> name ` set acts)"
proof (cases "a \<in> name ` set acts")
  case False
  then show ?thesis using signup_not_found [OF t, of a e] t inv by simp
next
  case True
  then obtain r where r: "r \<in> set acts" "a = name r" by auto
  note found = signup_found [OF t inv(1) r(1), of e]
  show ?thesis
  proof (cases "int (length (filter (\<lambda>p. fst p = name r) ps)) < max_participants r \<and> (name r, e) \<notin> set ps")
    case False
    then show ?thesis using found t inv r by auto
  next
    case ok: True
    let ?ps' = "ps @ [(name r, e)]"
    have res: "snd (signup_for_activity d a e) = d\<lparr>participants_table := Some ?ps'\<rparr>"
      using found ok r by simp
    have cap: "int (length (filter (\<lambda>p. fst p = name r') ?ps')) \<le> max_participants r'"
      if "r' \<in> set acts" for r'
    proof (cases "name r' = name r")
      case True
      then have "r' = r" using same_name_same_row [OF inv(1) r(1) that] by simp
      then show ?thesis using ok by simp
    next
      case False
      then show ?thesis using inv(3) that by auto
    qed
    have "distinct ?ps'" using inv(2) ok by simp
    moreover have "\<forall>p\<in>set ?ps'. fst p \<in> name ` set acts" using inv(4) r(1) by auto
    ultimately show ?thesis using res t cap by simp
  qed
qed

lemma filter_filter_length:
  "length (filter P (filter Q xs)) \<le> length (filter P xs)"
  by (induction xs) auto

lemma unregister_invariant:
  assumes t: "activities_table d = Some acts" "participants_table d = Some ps"
    and inv: "distinct (map name acts)" "distinct ps"
      "\<forall>r\<in>set acts. int (length (filter (\<lambda>p. fst p = name r) ps)) \<le> max_participants r"
      "\<forall>p\<in>set ps. fst p \<in> name ` set acts"
  shows "\<exists>ps'. activities_table (snd (unregister_from_activity d a e)) = Some acts \<and>
      participants_table (snd (unregister_from_activity d a e)) = Some ps' \<and> distinct ps' \<and>
      (\<forall>r\<in>set acts. int (length (filter (\<lambda>p. fst p = name r) ps')) \<le> max_participants r) \<and>
      (\<forall>p\<in>set ps'. fst p \<in> name ` set acts)"
proof (cases "a \<in> name ` set acts \<and> (a, e) \<in> set ps")
  case False
  then show ?thesis using unregister_unfold [OF t, of a e] t inv by auto
next
  case True
  let ?ps' = "filter (\<lambda>p. p \<noteq> (a, e)) ps"
  have res: "snd (unregister_from_activity d a e) = d\<lparr>participants_table := Some ?ps'\<rparr>"
    using unregister_unfold [OF t, of a e] True by simp
  have cap: "int (length (filter (\<lambda>p. fst p = name r) ?ps')) \<le> max_participants r"
    if "r \<in> set acts" for r
  proof -
    have "length (filter (\<lambda>p. fst p = name r) ?ps') \<le> length (filter (\<lambda>p. fst p = name r) ps)"
      by (rule filter_filter_length)
    then show ?thesis using inv(3) that by fastforce
  qed
  have "distinct ?ps'" using inv(2) by simp
  moreover have "\<forall>p\<in>set ?ps'. fst p \<in> name ` set acts" using inv(4) by auto
  ultimately show ?thesis using res t cap by simp
qed

lemma reachable_invariant:
  "reachable d \<Longrightarrow>
   \<exists>acts ps. activities_table d = Some acts \<and> participants_table d = Some ps \<and>
     distinct (map name acts) \<and> distinct ps \<and>
     (\<forall>r\<in>set acts. int (length (filter (\<lambda>p. fst p = name r) ps)) \<le> max_participants r) \<and>
     (\<forall>p\<in>set ps. fst p \<in> name ` set acts)"
proof (induction rule: reachable.induct)
  case start
  show ?case using seed_invariant by (simp add: seeded_eq)
next
  case (signup d a e)
  then obtain acts ps where h: "activities_table d = Some acts" "participants_table d = Some ps"
     "distinct (map name acts)" "distinct ps"
     "\<forall>r\<in>set acts. int (length (filter (\<lambda>p. fst p = name r) ps)) \<le> max_participants r"
     "\<forall>p\<in>set ps. fst p \<in> name ` set acts"
    by blast
  from signup_invariant [OF h, of a e] h(3) show ?case by blast
next
  case (unregister d a e)
  then obtain acts ps where h: "activities_table d = Some acts" "participants_table d = Some ps"
     "distinct (map name acts)" "distinct ps"
     "\<forall>r\<in>set acts. int (length (filter (\<lambda>p. fst p = name r) ps)) \<le> max_participants r"
     "\<forall>p\<in>set ps. fst p \<in> name ` set acts"
    by blast
  from unregister_invariant [OF h, of a e] h(3) show ?case by blast
qed

subsection \<open>Evaluating signup on explicit tables\<close>

lemma signup_on_tables:
  "signup_for_activity \<lparr>activities_table = Some acts, participants_table = Some ps\<rparr> a e =
    (case find (\<lambda>row. name row = a) acts of
       None \<Rightarrow> (Inl (HTTPException 404 ''Activity not found''),
                \<lparr>activities_table = Some acts, participants_table = Some ps\<rparr>)
     | Some r \<Rightarrow>
         if int (length (filter (\<lambda>p. fst p = a) ps)) \<ge> max_participants r
         then (Inl (HTTPException 400 ''Activity is full''),
               \<lparr>activities_table = Some acts, participants_table = Some ps\<rparr>)
         else if (a, e) \<in> set ps
         then (Inl (HTTPException 400 ''Already registered for this activity''),
               \<lparr>activities_table = Some acts, participants_table = Some ps\<rparr>)
         else (Inr (''Successfully signed up for '' @ a),
               \<lparr>activities_table = Some acts, participants_table = Some (ps @ [(a, e)])\<rparr>))"
  by (simp add: signup_unfold [of _ acts ps] split: option.splits)

lemma olympiad_one_place_left_eq:
  "olympiad_one_place_left =
     \<lparr>activities_table = Some seed_rows,
      participants_table = Some (seed_memberships @ map (Pair ''Math Olympiad'')
       [''s1@mergington.edu'', ''s2@mergington.edu'', ''s3@mergington.edu'',
        ''s4@mergington.edu'', ''s5@mergington.edu'', ''s6@mergington.edu'',
        ''s7@mergington.edu''])\<rparr>"
  by (simp add: olympiad_one_place_left_def seeded_eq signup_on_tables seed_rows_def
      seed_memberships_def INITIAL_ACTIVITIES_def)

lemma reachable_fold_signup:
  "reachable d \<Longrightarrow> reachable (fold (\<lambda>email d. snd (signup_for_activity d a email)) emails d)"
  by (induction emails arbitrary: d) (auto intro: reachable.signup)

lemma reachable_olympiad: "reachable olympiad_one_place_left"
  unfolding olympiad_one_place_left_def by (rule reachable_fold_signup) (rule reachable.start)

section \<open>Outcomes of signup and unregister\<close>

text \<open>
  Claim C2. On a store whose tables exist and whose activity names are unique (the primary
  key of \<open>activities\<close>), signup answers 404 "Activity not found" exactly when no activity
  has the given name; when the activity \<open>r\<close> has that name, it answers 400 "Activity is
  full" exactly when the number of memberships of the activity has reached
  \<open>max_participants r\<close>; below capacity it answers 400 "Already registered for this
  activity" exactly when the pair is already a membership; and otherwise it appends the
  membership, commits and returns the success message.
\<close>

theorem signup_for_activity_outcomes:
  assumes "activities_table d = Some acts" and "participants_table d = Some ps"
    and "distinct (map name acts)"
  shows "(fst (signup_for_activity d a e) = Inl (HTTPException 404 ''Activity not found'')
            \<longleftrightarrow> a \<notin> name ` set acts) \<and>
         (r \<in> set acts \<and> name r = a \<longrightarrow>
            (fst (signup_for_activity d a e) = Inl (HTTPException 400 ''Activity is full'')
               \<longleftrightarrow> int (length (filter (\<lambda>p. fst p = a) ps)) \<ge> max_participants r)) \<and>
         (r \<in> set acts \<and> name r = a \<and>
          int (length (filter (\<lambda>p. fst p = a) ps)) < max_participants r \<longrightarrow>
            (fst (signup_for_activity d a e) =
               Inl (HTTPException 400 ''Already registered for this activity'')
               \<longleftrightarrow> (a, e) \<in> set ps)) \<and>
         (r \<in> set acts \<and> name r = a \<and>
          int (length (filter (\<lambda>p. fst p = a) ps)) < max_participants r \<and> (a, e) \<notin> set ps \<longrightarrow>
            signup_for_activity d a e =
              (Inr (''Successfully signed up for '' @ a),
               d\<lparr>participants_table := Some (ps @ [(a, e)])\<rparr>))"
proof -
  have nf: "fst (signup_for_activity d a e) = Inl (HTTPException 404 ''Activity not found'')
            \<longleftrightarrow> a \<notin> name ` set acts"
  proof (cases "a \<in> name ` set acts")
    case False
    then show ?thesis using signup_not_found [OF assms(1,2)] by simp
  next
    case True
    then obtain x where "x \<in> set acts" "name x = a" by auto
    then show ?thesis using True signup_found [OF assms, of x e] by auto
  qed
  have found: "signup_for_activity d a e =
        (if int (length (filter (\<lambda>p. fst p = a) ps)) \<ge> max_participants r
         then (Inl (HTTPException 400 ''Activity is full''), d)
         else if (a, e) \<in> set ps
         then (Inl (HTTPException 400 ''Already registered for this activity''), d)
         else (Inr (''Successfully signed up for '' @ a),
               d\<lparr>participants_table := Some (ps @ [(a, e)])\<rparr>))"
    if "r \<in> set acts \<and> name r = a"
    using that signup_found [OF assms, of r e] by blast
  have full: "r \<in> set acts \<and> name r = a \<longrightarrow>
            (fst (signup_for_activity d a e) = Inl (HTTPException 400 ''Activity is full'')
               \<longleftrightarrow> int (length (filter (\<lambda>p. fst p = a) ps)) \<ge> max_participants r)"
    by (simp add: found)
  have dup: "r \<in> set acts \<and> name r = a \<and>
          int (length (filter (\<lambda>p. fst p = a) ps)) < max_participants r \<longrightarrow>
            (fst (signup_for_activity d a e) =
               Inl (HTTPException 400 ''Already registered for this activity'')
               \<longleftrightarrow> (a, e) \<in> set ps)"
    by (simp add: found)
  have ok: "r \<in> set acts \<and> name r = a \<and>
          int (length (filter (\<lambda>p. fst p = a) ps)) < max_participants r \<and> (a, e) \<notin> set ps \<longrightarrow>
            signup_for_activity d a e =
              (Inr (''Successfully signed up for '' @ a),
               d\<lparr>participants_table := Some (ps @ [(a, e)])\<rparr>)"
    by (simp add: found)
  show ?thesis using nf full dup ok by blast
qed


theorem signup_for_activity_outcomes_witness:
  "fst (signup_for_activity seeded ''Unknown Club'' ''x@mergington.edu'') =
     Inl (HTTPException 404 ''Activity not found'') \<and>
   fst (signup_for_activity seeded ''Chess Club'' ''michael@mergington.edu'') =
     Inl (HTTPException 400 ''Already registered for this activity'') \<and>
   signup_for_activity seeded ''Chess Club'' ''new@mergington.edu'' =
     (Inr ''Successfully signed up for Chess Club'',
      \<lparr>activities_table = Some seed_rows,
       participants_table = Some (seed_memberships @ [(''Chess Club'', ''new@mergington.edu'')])\<rparr>)"
proof -
  let ?chess = "\<lparr>description = ''Learn strategies and compete in chess tournaments'',
      schedule = ''Fridays, 3:30 PM - 5:00 PM'', max_participants = 12, name = ''Chess Club''\<rparr>"
  have t: "activities_table seeded = Some seed_rows" "participants_table seeded = Some seed_memberships"
    by (simp_all add: seeded_eq)
  have dist: "distinct (map name seed_rows)" using seed_invariant by simp
  have chess: "?chess \<in> set seed_rows" "name ?chess = ''Chess Club''"
    by (simp_all add: seed_rows_def INITIAL_ACTIVITIES_def)
  have unknown: "''Unknown Club'' \<notin> name ` set seed_rows"
    by (simp add: seed_rows_def INITIAL_ACTIVITIES_def)
  have count: "int (length (filter (\<lambda>p. fst p = ''Chess Club'') seed_memberships)) < max_participants ?chess"
    by (simp add: seed_memberships_def INITIAL_ACTIVITIES_def)
  have michael: "(''Chess Club'', ''michael@mergington.edu'') \<in> set seed_memberships"
    and new: "(''Chess Club'', ''new@mergington.edu'') \<notin> set seed_memberships"
    by (simp_all add: seed_memberships_def INITIAL_ACTIVITIES_def)
  show ?thesis
    using signup_for_activity_outcomes [OF t dist, of "''Unknown Club''" "''x@mergington.edu''" ?chess]
      signup_for_activity_outcomes [OF t dist, of "''Chess Club''" "''michael@mergington.edu''" ?chess]
      signup_for_activity_outcomes [OF t dist, of "''Chess Club''" "''new@mergington.edu''" ?chess]
      chess unknown count michael new
    by (simp add: seeded_eq)
qed

text \<open>
  Claim C3. On a store whose tables exist, unregister answers 404 "Activity not found"
  exactly when no activity has the given name; for an existing activity it answers 404
  "Participant not found" exactly when the pair is not a membership; and otherwise it
  removes that membership, leaves every other row in place, commits and returns the
  success message.
\<close>

theorem unregister_from_activity_outcomes:
  assumes "activities_table d = Some acts" and "participants_table d = Some ps"
  shows "(fst (unregister_from_activity d a e) = Inl (HTTPException 404 ''Activity not found'')
            \<longleftrightarrow> a \<notin> name ` set acts) \<and>
         (a \<in> name ` set acts \<longrightarrow>
            (fst (unregister_from_activity d a e) = Inl (HTTPException 404 ''Participant not found'')
               \<longleftrightarrow> (a, e) \<notin> set ps)) \<and>
         (a \<in> name ` set acts \<and> (a, e) \<in> set ps \<longrightarrow>
            unregister_from_activity d a e =
              (Inr (''Successfully unregistered from '' @ a),
               d\<lparr>participants_table := Some (filter (\<lambda>p. p \<noteq> (a, e)) ps)\<rparr>))"
  using unregister_unfold [OF assms, of a e] by auto


theorem unregister_from_activity_outcomes_witness:
  "fst (unregister_from_activity seeded ''Unknown Club'' ''x@mergington.edu'') =
     Inl (HTTPException 404 ''Activity not found'') \<and>
   fst (unregister_from_activity seeded ''Chess Club'' ''new@mergington.edu'') =
     Inl (HTTPException 404 ''Participant not found'') \<and>
   unregister_from_activity seeded ''Chess Club'' ''michael@mergington.edu'' =
     (Inr ''Successfully unregistered from Chess Club'',
      \<lparr>activities_table = Some seed_rows,
       participants_table =
         Some (filter (\<lambda>p. p \<noteq> (''Chess Club'', ''michael@mergington.edu'')) seed_memberships)\<rparr>)"
proof -
  have t: "activities_table seeded = Some seed_rows" "participants_table seeded = Some seed_memberships"
    by (simp_all add: seeded_eq)
  have chess: "''Chess Club'' \<in> name ` set seed_rows"
    and unknown: "''Unknown Club'' \<notin> name ` set seed_rows"
    by (simp_all add: seed_rows_def INITIAL_ACTIVITIES_def)
  have michael: "(''Chess Club'', ''michael@mergington.edu'') \<in> set seed_memberships"
    and new: "(''Chess Club'', ''new@mergington.edu'') \<notin> set seed_memberships"
    by (simp_all add: seed_memberships_def INITIAL_ACTIVITIES_def)
  show ?thesis
    using unregister_from_activity_outcomes [OF t, of "''Unknown Club''" "''x@mergington.edu''"]
      unregister_from_activity_outcomes [OF t, of "''Chess Club''" "''new@mergington.edu''"]
      unregister_from_activity_outcomes [OF t, of "''Chess Club''" "''michael@mergington.edu''"]
      chess unknown michael new
    by (simp add: seeded_eq)
qed

text \<open>
  Claim C7. Whenever signup or unregister ends with an error, whichever it is, the store
  after the call is the store before it.
\<close>

theorem errors_leave_store_unchanged:
  "(fst (signup_for_activity d a e) = Inl err \<longrightarrow> snd (signup_for_activity d a e) = d) \<and>
   (fst (unregister_from_activity d a e) = Inl err' \<longrightarrow>
      snd (unregister_from_activity d a e) = d)"
  using signup_error_unchanged [of d a e err] unregister_error_unchanged [of d a e err']
  by blast

theorem errors_leave_store_unchanged_witness:
  "fst (signup_for_activity seeded ''Chess Club'' ''michael@mergington.edu'') =
     Inl (HTTPException 400 ''Already registered for this activity'') \<and>
   snd (signup_for_activity seeded ''Chess Club'' ''michael@mergington.edu'') = seeded \<and>
   fst (unregister_from_activity seeded ''Chess Club'' ''new@mergington.edu'') =
     Inl (HTTPException 404 ''Participant not found'') \<and>
   snd (unregister_from_activity seeded ''Chess Club'' ''new@mergington.edu'') = seeded"
proof -
  have t: "activities_table seeded = Some seed_rows" "participants_table seeded = Some seed_memberships"
    by (simp_all add: seeded_eq)
  have s: "fst (signup_for_activity seeded ''Chess Club'' ''michael@mergington.edu'') =
     Inl (HTTPException 400 ''Already registered for this activity'')"
    by (simp add: signup_unfold [OF t] seed_rows_def seed_memberships_def INITIAL_ACTIVITIES_def)
  have u: "fst (unregister_from_activity seeded ''Chess Club'' ''new@mergington.edu'') =
     Inl (HTTPException 404 ''Participant not found'')"
    by (simp add: unregister_unfold [OF t] seed_rows_def seed_memberships_def INITIAL_ACTIVITIES_def)
  show ?thesis
    using errors_leave_store_unchanged [of seeded "''Chess Club''" "''michael@mergington.edu''"
        "HTTPException 400 ''Already registered for this activity''"]
      errors_leave_store_unchanged [of seeded "''Chess Club''" "''new@mergington.edu''" _
        "HTTPException 404 ''Participant not found''"] s u
    by simp
qed

text \<open>
  Claim C10. Signup never inspects the email: on a store whose tables exist, for an
  existing activity below capacity and any string whatsoever as email (the empty string
  included) that is not yet a membership of the activity, signup succeeds and records
  exactly that string.
\<close>

theorem signup_does_not_validate_email:
  assumes "activities_table d = Some acts" and "participants_table d = Some ps"
    and "distinct (map name acts)" and "r \<in> set acts" and "name r = a"
    and "int (length (filter (\<lambda>p. fst p = a) ps)) < max_participants r"
    and "(a, email) \<notin> set ps"
  shows "signup_for_activity d a email =
           (Inr (''Successfully signed up for '' @ a),
            d\<lparr>participants_table := Some (ps @ [(a, email)])\<rparr>)"
  using signup_found [OF assms(1-4), of email] assms(5-7) by auto

theorem signup_does_not_validate_email_witness:
  "signup_for_activity seeded ''Chess Club'' [] =
     (Inr ''Successfully signed up for Chess Club'',
      \<lparr>activities_table = Some seed_rows,
       participants_table = Some (seed_memberships @ [(''Chess Club'', [])])\<rparr>) \<and>
   signup_for_activity seeded ''Gym Class'' ''not an e-mail address'' =
     (Inr ''Successfully signed up for Gym Class'',
      \<lparr>activities_table = Some seed_rows,
       participants_table =
         Some (seed_memberships @ [(''Gym Class'', ''not an e-mail address'')])\<rparr>)"
proof -
  let ?chess = "\<lparr>description = ''Learn strategies and compete in chess tournaments'',
      schedule = ''Fridays, 3:30 PM - 5:00 PM'', max_participants = 12, name = ''Chess Club''\<rparr>"
  let ?gym = "\<lparr>description = ''Physical education and sports activities'',
      schedule = ''Mondays, Wednesdays, Fridays, 2:00 PM - 3:00 PM'', max_participants = 30,
      name = ''Gym Class''\<rparr>"
  have t: "activities_table seeded = Some seed_rows"
    "participants_table seeded = Some seed_memberships"
    by (simp_all add: seeded_eq)
  have dist: "distinct (map name seed_rows)" using seed_invariant by simp
  have rows: "?chess \<in> set seed_rows" "?gym \<in> set seed_rows"
    by (simp_all add: seed_rows_def INITIAL_ACTIVITIES_def)
  have count: "int (length (filter (\<lambda>p. fst p = ''Chess Club'') seed_memberships))
                 < max_participants ?chess"
    "int (length (filter (\<lambda>p. fst p = ''Gym Class'') seed_memberships)) < max_participants ?gym"
    by (simp_all add: seed_memberships_def INITIAL_ACTIVITIES_def)
  have new: "(''Chess Club'', []) \<notin> set seed_memberships"
    "(''Gym Class'', ''not an e-mail address'') \<notin> set seed_memberships"
    by (simp_all add: seed_memberships_def INITIAL_ACTIVITIES_def)
  show ?thesis
    using signup_does_not_validate_email [OF t dist rows(1) _ count(1) new(1)]
      signup_does_not_validate_email [OF t dist rows(2) _ count(2) new(2)]
    by (simp add: seeded_eq)
qed

section \<open>Signing up twice\<close>

text \<open>
  Claim C4, as the specification states it, fails: the capacity check comes before the
  duplicate check, so when the first signup takes the last place the second one is
  answered "Activity is full". The state below is reachable from the seeded one.
\<close>

theorem second_signup_not_always_conflict:
  "reachable olympiad_one_place_left \<and>
   fst (signup_for_activity olympiad_one_place_left ''Math Olympiad'' ''s8@mergington.edu'') =
     Inr ''Successfully signed up for Math Olympiad'' \<and>
   fst (signup_for_activity
          (snd (signup_for_activity olympiad_one_place_left ''Math Olympiad'' ''s8@mergington.edu''))
          ''Math Olympiad'' ''s8@mergington.edu'') = Inl (HTTPException 400 ''Activity is full'') \<and>
   fst (signup_for_activity
          (snd (signup_for_activity olympiad_one_place_left ''Math Olympiad'' ''s8@mergington.edu''))
          ''Math Olympiad'' ''s8@mergington.edu'') \<noteq>
     Inl (HTTPException 400 ''Already registered for this activity'')"
  using reachable_olympiad
  by (simp add: olympiad_one_place_left_eq signup_on_tables seed_rows_def
      seed_memberships_def INITIAL_ACTIVITIES_def)

text \<open>
  Claim C4, amended. On a store whose tables exist, when a first signup for the activity
  \<open>r\<close> succeeds, the same signup repeated at once fails with status 400 and changes
  nothing: with "Already registered for this activity" when the activity is still below
  capacity after the first signup, and with "Activity is full" when the first signup took
  the last place.
\<close>

theorem second_signup_rejected:
  assumes "activities_table d = Some acts" and "participants_table d = Some ps"
    and "distinct (map name acts)" and "r \<in> set acts" and "name r = a"
    and "fst (signup_for_activity d a e) = Inr m"
  shows "signup_for_activity (snd (signup_for_activity d a e)) a e =
           (Inl (HTTPException 400
                  (if int (length (filter (\<lambda>p. fst p = a) ps)) + 1 \<ge> max_participants r
                   then ''Activity is full''
                   else ''Already registered for this activity'')),
            snd (signup_for_activity d a e))"
proof -
  note first = signup_found [OF assms(1-4), of e]
  have ok: "int (length (filter (\<lambda>p. fst p = name r) ps)) < max_participants r"
    "(name r, e) \<notin> set ps"
    using first assms(5,6) by (auto split: if_splits)
  let ?d' = "d\<lparr>participants_table := Some (ps @ [(name r, e)])\<rparr>"
  have d': "snd (signup_for_activity d a e) = ?d'"
    using first ok assms(5) by simp
  have t': "activities_table ?d' = Some acts"
    "participants_table ?d' = Some (ps @ [(name r, e)])"
    using assms(1) by simp_all
  show ?thesis
    using signup_found [OF t' assms(3,4), of e] assms(5) by (simp add: d')
qed

theorem second_signup_rejected_witness:
  "signup_for_activity (snd (signup_for_activity seeded ''Chess Club'' ''new@mergington.edu''))
     ''Chess Club'' ''new@mergington.edu'' =
     (Inl (HTTPException 400 ''Already registered for this activity''),
      snd (signup_for_activity seeded ''Chess Club'' ''new@mergington.edu'')) \<and>
   signup_for_activity
     (snd (signup_for_activity olympiad_one_place_left ''Math Olympiad'' ''s8@mergington.edu''))
     ''Math Olympiad'' ''s8@mergington.edu'' =
     (Inl (HTTPException 400 ''Activity is full''),
      snd (signup_for_activity olympiad_one_place_left ''Math Olympiad'' ''s8@mergington.edu''))"
proof -
  let ?chess = "\<lparr>description = ''Learn strategies and compete in chess tournaments'',
      schedule = ''Fridays, 3:30 PM - 5:00 PM'', max_participants = 12, name = ''Chess Club''\<rparr>"
  let ?math = "\<lparr>description = ''Prepare for math competitions and solve challenging problems'',
      schedule = ''Thursdays, 3:30 PM - 5:00 PM'', max_participants = 10, name = ''Math Olympiad''\<rparr>"
  let ?more = "map (Pair ''Math Olympiad'')
       [''s1@mergington.edu'', ''s2@mergington.edu'', ''s3@mergington.edu'',
        ''s4@mergington.edu'', ''s5@mergington.edu'', ''s6@mergington.edu'',
        ''s7@mergington.edu'']"
  have t: "activities_table seeded = Some seed_rows"
    "participants_table seeded = Some seed_memberships"
    by (simp_all add: seeded_eq)
  have t2: "activities_table olympiad_one_place_left = Some seed_rows"
    "participants_table olympiad_one_place_left = Some (seed_memberships @ ?more)"
    by (simp_all add: olympiad_one_place_left_eq)
  have dist: "distinct (map name seed_rows)" using seed_invariant by simp
  have rows: "?chess \<in> set seed_rows" "?math \<in> set seed_rows"
    by (simp_all add: seed_rows_def INITIAL_ACTIVITIES_def)
  have first: "fst (signup_for_activity seeded ''Chess Club'' ''new@mergington.edu'') =
      Inr ''Successfully signed up for Chess Club''"
    by (simp add: seeded_eq signup_on_tables seed_rows_def seed_memberships_def
        INITIAL_ACTIVITIES_def)
  have first2: "fst (signup_for_activity olympiad_one_place_left ''Math Olympiad''
        ''s8@mergington.edu'') = Inr ''Successfully signed up for Math Olympiad''"
    by (simp add: olympiad_one_place_left_eq signup_on_tables seed_rows_def seed_memberships_def
        INITIAL_ACTIVITIES_def)
  have count: "length (filter (\<lambda>p. fst p = ''Chess Club'') seed_memberships) = 2"
    "length (filter (\<lambda>p. fst p = ''Math Olympiad'') (seed_memberships @ ?more)) = 9"
    by (simp_all add: seed_memberships_def INITIAL_ACTIVITIES_def)
  show ?thesis
    using second_signup_rejected [OF t dist rows(1) _ first]
      second_signup_rejected [OF t2 dist rows(2) _ first2] count
    by simp
qed

section \<open>Invariants of the reachable states\<close>

text \<open>
  Claim C1. In every state reachable from the seeded state by signups and unregisters,
  both tables exist and no activity has more memberships than its \<open>max_participants\<close>.
\<close>

theorem capacity_never_exceeded:
  assumes "reachable d"
  shows "\<exists>acts ps. activities_table d = Some acts \<and> participants_table d = Some ps \<and>
           (\<forall>r\<in>set acts.
              int (length (filter (\<lambda>p. fst p = name r) ps)) \<le> max_participants r)"
  using reachable_invariant [OF assms] by blast

theorem capacity_never_exceeded_witness:
  "reachable olympiad_one_place_left \<and>
   (\<exists>ps. participants_table olympiad_one_place_left = Some ps \<and>
      length (filter (\<lambda>p. fst p = ''Math Olympiad'') ps) = 9 \<and>
      int (length (filter (\<lambda>p. fst p = ''Math Olympiad'') ps)) \<le> 10)"
proof -
  let ?math = "\<lparr>description = ''Prepare for math competitions and solve challenging problems'',
      schedule = ''Thursdays, 3:30 PM - 5:00 PM'', max_participants = 10, name = ''Math Olympiad''\<rparr>"
  obtain acts ps where h: "activities_table olympiad_one_place_left = Some acts"
    "participants_table olympiad_one_place_left = Some ps"
    "\<forall>r\<in>set acts. int (length (filter (\<lambda>p. fst p = name r) ps)) \<le> max_participants r"
    using capacity_never_exceeded [OF reachable_olympiad] by blast
  have "acts = seed_rows" using h(1) by (simp add: olympiad_one_place_left_eq)
  then have "?math \<in> set acts" by (simp add: seed_rows_def INITIAL_ACTIVITIES_def)
  then have "int (length (filter (\<lambda>p. fst p = ''Math Olympiad'') ps)) \<le> 10"
    using h(3) by fastforce
  moreover have "length (filter (\<lambda>p. fst p = ''Math Olympiad'') ps) = 9"
    using h(2) by (auto simp add: olympiad_one_place_left_eq seed_memberships_def INITIAL_ACTIVITIES_def)
  ultimately show ?thesis using reachable_olympiad h(2) by blast
qed

text \<open>
  Claim C6. In every state reachable from the seeded state by signups and unregisters,
  both tables exist and the activity name of every membership is the name of a row of
  \<open>activities\<close>.
\<close>

theorem memberships_reference_activities:
  assumes "reachable d"
  shows "\<exists>acts ps. activities_table d = Some acts \<and> participants_table d = Some ps \<and>
           (\<forall>p\<in>set ps. fst p \<in> name ` set acts)"
  using reachable_invariant [OF assms] by blast

theorem memberships_reference_activities_witness:
  "reachable (snd (signup_for_activity seeded ''Chess Club'' ''new@mergington.edu'')) \<and>
   (\<exists>acts ps.
      activities_table (snd (signup_for_activity seeded ''Chess Club'' ''new@mergington.edu''))
        = Some acts \<and>
      participants_table (snd (signup_for_activity seeded ''Chess Club'' ''new@mergington.edu''))
        = Some ps \<and>
      (''Chess Club'', ''new@mergington.edu'') \<in> set ps \<and> ''Chess Club'' \<in> name ` set acts)"
proof -
  let ?d = "snd (signup_for_activity seeded ''Chess Club'' ''new@mergington.edu'')"
  have r: "reachable ?d" by (rule reachable.signup) (rule reachable.start)
  obtain acts ps where h: "activities_table ?d = Some acts" "participants_table ?d = Some ps"
    "\<forall>p\<in>set ps. fst p \<in> name ` set acts"
    using memberships_reference_activities [OF r] by blast
  have "?d = \<lparr>activities_table = Some seed_rows, participants_table =
      Some (seed_memberships @ [(''Chess Club'', ''new@mergington.edu'')])\<rparr>"
    by (simp add: seeded_eq signup_on_tables seed_rows_def seed_memberships_def
        INITIAL_ACTIVITIES_def)
  then have "(''Chess Club'', ''new@mergington.edu'') \<in> set ps" using h(2) by auto
  moreover from this have "''Chess Club'' \<in> name ` set acts" using h(3) by fastforce
  ultimately show ?thesis using r h(1,2) by blast
qed

section \<open>Listing the activities\<close>

text \<open>
  The first loop of \<open>get_activities\<close> builds one entry per row; the second appends every
  email to the entry of its activity, and finds that entry whenever the membership
  references an activity of the table.
\<close>

lemma update_fresh_key:
  "k \<notin> fst ` set al \<Longrightarrow> AList.update k v al = al @ [(k, v)]"
  by (induction al) auto

lemma fold_add_activity:
  "distinct (map name rows) \<Longrightarrow> name ` set rows \<inter> fst ` set acc = {} \<Longrightarrow>
   fold add_activity rows acc =
     acc @ map (\<lambda>r. (name r, \<lparr>description = description r, schedule = schedule r,
                 max_participants = max_participants r, participants = []\<rparr>)) rows"
proof (induction rows arbitrary: acc)
  case Nil
  then show ?case by simp
next
  case (Cons r rows)
  let ?entry = "(name r, \<lparr>description = description r, schedule = schedule r,
                 max_participants = max_participants r, participants = []\<rparr>)"
  have fresh: "name r \<notin> fst ` set acc" using Cons.prems(2) by auto
  then have step: "add_activity r acc = acc @ [?entry]"
    by (simp add: add_activity_def update_fresh_key)
  have "name ` set rows \<inter> fst ` set (acc @ [?entry]) = {}"
    using Cons.prems by auto
  then show ?case using Cons.IH [of "acc @ [?entry]"] Cons.prems(1) step by simp
qed

lemma map_other_keys:
  "a \<notin> fst ` set al \<Longrightarrow> map (\<lambda>(n, d). if n = a then (n, f d) else (n, d)) al = al"
  by (induction al) auto

lemma update_existing_key:
  "distinct (map fst al) \<Longrightarrow> map_of al a = Some det \<Longrightarrow>
   AList.update a (f det) al = map (\<lambda>(n, d). if n = a then (n, f d) else (n, d)) al"
proof (induction al)
  case Nil
  then show ?case by simp
next
  case (Cons p al)
  obtain k v where p: "p = (k, v)" by (cases p)
  show ?case
  proof (cases "k = a")
    case True
    then have "a \<notin> fst ` set al" using Cons.prems(1) p by auto
    then show ?thesis using True p Cons.prems(2) by (simp add: map_other_keys)
  next
    case False
    then show ?thesis using p Cons by simp
  qed
qed

lemma append_emails_total:
  "distinct (map fst al) \<Longrightarrow> fst ` set ps \<subseteq> fst ` set al \<Longrightarrow>
   append_emails al ps =
     Inr (map (\<lambda>(n, d). (n, d\<lparr>participants :=
                 participants d @ map snd (filter (\<lambda>p. fst p = n) ps)\<rparr>)) al)"
proof (induction ps arbitrary: al)
  case Nil
  then show ?case by (simp add: case_prod_beta)
next
  case (Cons p ps)
  obtain a e where p: "p = (a, e)" by (cases p)
  have "a \<in> fst ` set al" using Cons.prems(2) p by auto
  then obtain det where det: "map_of al a = Some det"
    by (metis domD dom_map_of_conv_image_fst)
  let ?al' = "map (\<lambda>(n, d). if n = a then (n, d\<lparr>participants := participants d @ [e]\<rparr>)
                 else (n, d)) al"
  have upd: "AList.update a (det\<lparr>participants := participants det @ [e]\<rparr>) al = ?al'"
    using update_existing_key [OF Cons.prems(1) det, of "\<lambda>d. d\<lparr>participants := participants d @ [e]\<rparr>"]
    by simp
  have keys: "map fst ?al' = map fst al" by (induction al) auto
  have "distinct (map fst ?al')" unfolding keys by (rule Cons.prems(1))
  moreover have "fst ` set ps \<subseteq> fst ` set ?al'"
  proof -
    have "set (map fst ?al') = set (map fst al)" by (simp only: keys)
    then have "fst ` set ?al' = fst ` set al" by (simp only: set_map)
    then show ?thesis using Cons.prems(2) by auto
  qed
  ultimately have "append_emails ?al' ps =
     Inr (map (\<lambda>(n, d). (n, d\<lparr>participants :=
                 participants d @ map snd (filter (\<lambda>p. fst p = n) ps)\<rparr>)) ?al')"
    by (rule Cons.IH)
  then show ?case using det upd p by (simp add: case_prod_beta comp_def)
qed

lemma get_activities_reads_only: "snd (get_activities d) = d"
  by (simp add: get_activities_def get_db_def connect_def close_def activities_rows_def
      participants_rows_def Let_def split: option.splits)

text \<open>
  Claim C9. On a store whose tables exist, whose activity names are unique and whose
  memberships all reference an activity of the table, \<open>get_activities\<close> leaves the store
  as it is and returns one entry per activity row, keyed by the activity's name, holding
  its description, schedule and \<open>max_participants\<close> and the emails of exactly the
  memberships of that activity, in table order.
\<close>

theorem get_activities_listing:
  assumes "activities_table d = Some acts" and "participants_table d = Some ps"
    and "distinct (map name acts)" and "fst ` set ps \<subseteq> name ` set acts"
  shows "get_activities d =
           (Inr (map (\<lambda>r. (name r,
                   \<lparr>description = description r, schedule = schedule r,
                    max_participants = max_participants r,
                    participants = map snd (filter (\<lambda>p. fst p = name r) ps)\<rparr>)) acts),
            d)"
proof -
  let ?empty = "map (\<lambda>r. (name r, \<lparr>description = description r, schedule = schedule r,
                 max_participants = max_participants r, participants = []\<rparr>)) acts"
  have dict: "fold add_activity acts [] = ?empty"
    using fold_add_activity [OF assms(3), of "[]"] by simp
  have keys: "map fst ?empty = map name acts" by (simp add: comp_def)
  have "distinct (map fst ?empty)" unfolding keys by (rule assms(3))
  moreover have "fst ` set ps \<subseteq> fst ` set ?empty"
    using assms(4) by (simp add: image_image)
  ultimately have "append_emails ?empty ps =
     Inr (map (\<lambda>(n, d). (n, d\<lparr>participants :=
                 participants d @ map snd (filter (\<lambda>p. fst p = n) ps)\<rparr>)) ?empty)"
    by (rule append_emails_total)
  then show ?thesis
    using assms(1,2) dict
    by (simp add: get_activities_def get_db_def connect_def close_def activities_rows_def
        participants_rows_def comp_def)
qed

theorem get_activities_listing_witness:
  "(\<exists>listing.
      get_activities (snd (signup_for_activity seeded ''Chess Club'' ''new@mergington.edu'')) =
        (Inr listing, snd (signup_for_activity seeded ''Chess Club'' ''new@mergington.edu'')) \<and>
      map fst listing =
        [''Chess Club'', ''Programming Class'', ''Gym Class'', ''Soccer Team'',
         ''Basketball Club'', ''Drama Club'', ''Art Workshop'', ''Math Olympiad'',
         ''Debate Team''] \<and>
      map_of listing ''Chess Club'' =
        Some \<lparr>description = ''Learn strategies and compete in chess tournaments'',
              schedule = ''Fridays, 3:30 PM - 5:00 PM'', max_participants = 12,
              participants = [''michael@mergington.edu'', ''daniel@mergington.edu'',
                              ''new@mergington.edu'']\<rparr> \<and>
      map_of listing ''Debate Team'' =
        Some \<lparr>description = ''Develop public speaking and argumentation skills'',
              schedule = ''Wednesdays, 4:00 PM - 5:30 PM'', max_participants = 12,
              participants = [''harper@mergington.edu'', ''elijah@mergington.edu'']\<rparr>)"
proof -
  let ?d = "snd (signup_for_activity seeded ''Chess Club'' ''new@mergington.edu'')"
  let ?ps = "seed_memberships @ [(''Chess Club'', ''new@mergington.edu'')]"
  have d: "?d = \<lparr>activities_table = Some seed_rows, participants_table = Some ?ps\<rparr>"
    by (simp add: seeded_eq signup_on_tables seed_rows_def seed_memberships_def
        INITIAL_ACTIVITIES_def)
  have t: "activities_table ?d = Some seed_rows" "participants_table ?d = Some ?ps"
    by (simp_all add: d)
  have dist: "distinct (map name seed_rows)" using seed_invariant by simp
  have refs: "fst ` set ?ps \<subseteq> name ` set seed_rows"
    by (simp add: seed_rows_def seed_memberships_def INITIAL_ACTIVITIES_def)
  show ?thesis
    using get_activities_listing [OF t dist refs]
    by (simp add: seed_rows_def seed_memberships_def INITIAL_ACTIVITIES_def)
qed

section \<open>The redirect of the root path\<close>

text \<open>
  Claim C8, as the specification states it, fails: \<open>root\<close> passes no status code, so the
  response carries the framework's default, which is 307 and not 302.
\<close>

theorem root_status_is_not_302:
  "status_code (root framework_redirect_status) \<noteq> 302 \<and>
   root framework_redirect_status = \<lparr>status_code = 307, location = ''/static/index.html''\<rparr>"
  by (simp add: root_def RedirectResponse_def framework_redirect_status_def)

text \<open>
  Claim C8, amended. A request to \<open>GET /\<close> returns a redirect to
  \<open>/static/index.html\<close> whose status is the default status of the framework's
  \<open>RedirectResponse\<close>, whatever that default is.
\<close>

theorem root_redirects_with_default_status:
  "root default_status = \<lparr>status_code = default_status, location = ''/static/index.html''\<rparr>"
  by (simp add: root_def RedirectResponse_def)

section \<open>Seeding\<close>

text \<open>
  \<open>init_db\<close> first creates the missing tables, which makes it a function of the store with
  both tables present. From there it either leaves a non-empty \<open>activities\<close> table alone,
  or runs the two loops, which never touch the committed store and, when they complete,
  leave at least one activity behind.
\<close>

lemma create_tables_connect:
  "create_participants (create_activities (connect d)) = connect (with_tables d)"
  by (cases d) (simp add: create_participants_def create_activities_def connect_def
      with_tables_def split: option.splits)

lemma with_tables_idem: "with_tables (with_tables d) = with_tables d"
  by (simp add: with_tables_def)

lemma with_tables_id:
  "activities_table d = Some rows \<Longrightarrow> participants_table d = Some ps \<Longrightarrow> with_tables d = d"
  by (cases d) (simp add: with_tables_def)

lemma insert_participant_keeps:
  "insert_participant c row = Inr c' \<Longrightarrow>
   stored c' = stored c \<and> activities_table (working c') = activities_table (working c) \<and>
   participants_table (working c') \<noteq> None"
  by (auto simp add: insert_participant_def participants_rows_def
      split: option.splits if_splits)

lemma add_participants_keeps:
  "add_participants c n emails = (res, c') \<Longrightarrow>
   stored c' = stored c \<and> activities_table (working c') = activities_table (working c) \<and>
   (participants_table (working c) \<noteq> None \<longrightarrow> participants_table (working c') \<noteq> None)"
proof (induction emails arbitrary: c)
  case Nil
  then show ?case by simp
next
  case (Cons email emails)
  show ?case
  proof (cases "insert_participant c (n, email)")
    case (Inl err)
    then show ?thesis using Cons.prems by simp
  next
    case (Inr c1)
    then have "add_participants c1 n emails = (res, c')" using Cons.prems by simp
    from Cons.IH [OF this] insert_participant_keeps [OF Inr] show ?thesis by simp
  qed
qed

lemma insert_activity_keeps:
  "insert_activity c row = Inr c' \<Longrightarrow>
   stored c' = stored c \<and> populated c' \<and>
   participants_table (working c') = participants_table (working c)"
  by (auto simp add: insert_activity_def activities_rows_def populated_def
      split: option.splits if_splits)

lemma populate_keeps:
  "populate c entries = (res, c') \<Longrightarrow>
   stored c' = stored c \<and>
   (participants_table (working c) \<noteq> None \<longrightarrow> participants_table (working c') \<noteq> None) \<and>
   (populated c \<longrightarrow> populated c') \<and>
   (res = None \<and> entries \<noteq> [] \<longrightarrow> populated c')"
proof (induction entries arbitrary: c)
  case Nil
  then show ?case by simp
next
  case (Cons entry entries)
  obtain n details where entry: "entry = (n, details)" by (cases entry)
  let ?row = "\<lparr>description = description details, schedule = schedule details,
              max_participants = max_participants details, name = n\<rparr>"
  show ?case
  proof (cases "insert_activity c ?row")
    case (Inl err)
    then show ?thesis using Cons.prems entry by auto
  next
    case (Inr c1)
    note c1 = insert_activity_keeps [OF Inr]
    obtain res2 c2 where loop: "add_participants c1 n (participants details) = (res2, c2)"
      by (cases "add_participants c1 n (participants details)")
    note c2 = add_participants_keeps [OF loop]
    have pop2: "populated c2" using c1 c2 by (simp add: populated_def)
    show ?thesis
    proof (cases res2)
      case (Some err)
      then have "res = Some err" "c' = c2" using Cons.prems entry Inr loop by simp_all
      then show ?thesis using c1 c2 pop2 by simp
    next
      case None
      then have "populate c2 entries = (res, c')" using Cons.prems entry Inr loop by simp
      from Cons.IH [OF this] c1 c2 pop2 show ?thesis by simp
    qed
  qed
qed

lemma connect_fields: "stored (connect d) = d" "working (connect d) = d"
  by (simp_all add: connect_def)

lemma init_db_with_tables: "init_db d = init_db (with_tables d)"
  by (simp add: init_db_def get_db_def create_tables_connect with_tables_idem)

lemma init_db_on_tables:
  assumes "activities_table d = Some rows" and "participants_table d = Some ps"
  shows "init_db d =
     (if rows = []
      then (case populate (connect d) INITIAL_ACTIVITIES of
              (Some err, c') \<Rightarrow> (Some err, stored c')
            | (None, c') \<Rightarrow> (None, working c'))
      else (None, d))"
  using assms
  by (simp add: init_db_def get_db_def create_tables_connect with_tables_id [OF assms]
      connect_fields close_def commit_def activities_rows_def
      split: prod.splits option.splits)

lemma INITIAL_ACTIVITIES_nonempty: "INITIAL_ACTIVITIES \<noteq> []"
  by (simp add: INITIAL_ACTIVITIES_def)

lemma init_db_idempotent: "init_db (snd (init_db d)) = init_db d"
proof -
  let ?d1 = "with_tables d"
  obtain rows ps where t: "activities_table ?d1 = Some rows" "participants_table ?d1 = Some ps"
    by (simp add: with_tables_def)
  have same: "init_db d = init_db ?d1" by (rule init_db_with_tables)
  note run = init_db_on_tables [OF t]
  show ?thesis
  proof (cases "rows = []")
    case False
    then show ?thesis using same run by simp
  next
    case True
    obtain res c' where loop: "populate (connect ?d1) INITIAL_ACTIVITIES = (res, c')"
      by (cases "populate (connect ?d1) INITIAL_ACTIVITIES")
    note keeps = populate_keeps [OF loop]
    show ?thesis
    proof (cases res)
      case (Some err)
      then have "init_db ?d1 = (Some err, ?d1)"
        using run True loop keeps by (simp add: connect_fields)
      then show ?thesis using same by simp
    next
      case None
      then have first: "init_db d = (None, working c')"
        using same run True loop by simp
      have "populated c'" using keeps None INITIAL_ACTIVITIES_nonempty by simp
      then obtain rows' where rows': "activities_table (working c') = Some rows'" "rows' \<noteq> []"
        by (auto simp add: populated_def split: option.splits)
      have "participants_table (working c') \<noteq> None"
        using keeps t(2) by (simp add: connect_fields)
      then obtain ps' where ps': "participants_table (working c') = Some ps'" by auto
      have "init_db (working c') = (None, working c')"
        using init_db_on_tables [OF rows'(1) ps'] rows'(2) by simp
      then show ?thesis using first by simp
    qed
  qed
qed

text \<open>
  Claim C5. Running \<open>init_db\<close> on the store a run of \<open>init_db\<close> left behind returns what
  that run returned and leaves the store as it is. In particular two runs on a new file,
  or on a store with two empty tables, leave exactly the seeded tables: one row per entry
  of \<open>INITIAL_ACTIVITIES\<close>, with no activity name and no membership twice.
\<close>

theorem init_db_twice:
  "init_db (snd (init_db d)) = init_db d \<and>
   snd (init_db (snd (init_db new_file))) =
     \<lparr>activities_table = Some seed_rows, participants_table = Some seed_memberships\<rparr> \<and>
   snd (init_db (snd (init_db \<lparr>activities_table = Some [], participants_table = Some []\<rparr>))) =
     \<lparr>activities_table = Some seed_rows, participants_table = Some seed_memberships\<rparr> \<and>
   length seed_rows = length INITIAL_ACTIVITIES \<and>
   distinct (map name seed_rows) \<and> distinct seed_memberships"
proof -
  have "with_tables new_file = \<lparr>activities_table = Some [], participants_table = Some []\<rparr>"
    by (simp add: with_tables_def new_file_def)
  then have "init_db \<lparr>activities_table = Some [], participants_table = Some []\<rparr> =
      init_db new_file"
    using init_db_with_tables [of new_file] by simp
  then show ?thesis
    using init_db_idempotent [of d] init_db_idempotent [of new_file] init_db_new_file
      seed_invariant
    by (simp add: seed_rows_def)
qed

end
